theory Spec2Isabelle
  imports Main
begin

section \<open>Conversation history of the chat session (lunaa.py)\<close>

subsection \<open>Data model\<close>

text \<open>
  A turn is the dict \<^verbatim>\<open>{"role": ..., "content": ...}\<close> that the session appends to
  its history; both fields are Python strings. The session object \<^verbatim>\<open>OllamaChat\<close> has
  the two attributes \<^verbatim>\<open>model\<close> and \<^verbatim>\<open>history\<close>.
\<close>

record turn =
  role :: string
  content :: string

record OllamaChat =
  model :: string
  history :: "turn list"

text \<open>
  What \<^verbatim>\<open>ollama.chat(..., stream=True)\<close> hands back. Every record of the stream is a
  dict that may or may not have the key \<^verbatim>\<open>"message"\<close>, whose value is a dict that may
  or may not have the key \<^verbatim>\<open>"content"\<close>. The stream itself is consumed one record at a
  time: asking for the next record gives a record, or the end of the stream, or an
  exception of class \<^verbatim>\<open>Exception\<close>, of which the handler only uses the text \<^verbatim>\<open>str(e)\<close>.
  An exception raised by the call \<^verbatim>\<open>ollama.chat(...)\<close> itself, before the first record,
  is the stream \<open>Raises e\<close>.
\<close>

datatype message = Message (content_field: "string option")

datatype chunk = Chunk (message_field: "message option")

datatype chat_stream = StopIteration | Raises string | Next chunk chat_stream

text \<open>The daemon client: its answer depends on the model name and the messages sent.\<close>

type_synonym daemon = "string \<Rightarrow> turn list \<Rightarrow> chat_stream"

datatype py_error = IndexError

subsection \<open>The session constructor\<close>

text \<open>
  \<^verbatim>\<open>__init__\<close>: the history starts empty and receives the system turn when the prompt
  string is truthy, that is, not empty.
\<close>

definition OllamaChat_init :: "string \<Rightarrow> string \<Rightarrow> OllamaChat" where
  "OllamaChat_init m system_prompt =
     (let h = [] in
      \<lparr>model = m,
       history = (if system_prompt \<noteq> []
                  then h @ [\<lparr>role = ''system'', content = system_prompt\<rparr>]
                  else h)\<rparr>)"

subsection \<open>The generator \<^verbatim>\<open>ask_stream\<close>\<close>

text \<open>
  \<^verbatim>\<open>chunk.get("message", {}).get("content", "")\<close>: a missing key gives the empty string.
\<close>

definition delta_of :: "chunk \<Rightarrow> string" where
  "delta_of c =
     (case message_field c of
        None \<Rightarrow> []
      | Some m \<Rightarrow> (case content_field m of None \<Rightarrow> [] | Some d \<Rightarrow> d))"

text \<open>The f-string of the handler; the line feed and the quotes are written as characters.\<close>

definition err_text :: "string \<Rightarrow> string \<Rightarrow> string" where
  "err_text e m =
     ''[Error] '' @ e @ [CHR 0x0A] @
     ''Make sure the Ollama daemon is running and the model '' @ [CHR 0x27] @ m @ [CHR 0x27] @
     '' is pulled.''"

text \<open>
  \<^verbatim>\<open>ask_stream\<close> has \<^verbatim>\<open>yield\<close> in its body, so it is a generator function: the call
  builds a generator object and runs nothing of the body. The body runs when the
  object is advanced, from one suspension point to the next. The object is in one of
  four places:
  \<^item> \<open>Created user_text\<close>: built, not advanced yet;
  \<^item> \<open>Streaming rest accumulated\<close>: suspended at \<^verbatim>\<open>yield delta\<close> inside the loop, with
    the rest of the daemon's stream still to read and the fragments gathered so far;
  \<^item> \<open>Failing\<close>: suspended at \<^verbatim>\<open>yield err\<close> inside the handler, the rollback still to
    come;
  \<^item> \<open>Finished\<close>: the body has returned.
\<close>

datatype gen_state =
    Created string
  | Streaming chat_stream "string list"
  | Failing
  | Finished

text \<open>
  Advancing the generator gives a chunk, or the end of the sequence, or an exception
  that leaves the generator.
\<close>

datatype gen_result = Yield string | Stop | Propagates py_error

definition ask_stream :: "string \<Rightarrow> OllamaChat \<Rightarrow> gen_state \<times> OllamaChat" where
  "ask_stream user_text s = (Created user_text, s)"

text \<open>
  The \<^verbatim>\<open>for\<close> loop over the daemon's stream inside \<^verbatim>\<open>try\<close>, run up to its next
  suspension point: a record with an empty delta is skipped, a record with a delta is
  gathered and yielded, an exception enters the handler, which yields the error text,
  and the end of the stream commits the assistant turn and returns.
\<close>

fun stream_loop ::
  "chat_stream \<Rightarrow> string list \<Rightarrow> OllamaChat \<Rightarrow> gen_result \<times> gen_state \<times> OllamaChat" where
  "stream_loop StopIteration accumulated s =
     (let full = concat accumulated in
      (Stop, Finished, s\<lparr>history := history s @ [\<lparr>role = ''assistant'', content = full\<rparr>]\<rparr>))"
| "stream_loop (Raises e) accumulated s =
     (Yield (err_text e (model s)), Failing, s)"
| "stream_loop (Next c rest) accumulated s =
     (let delta = delta_of c in
      if delta \<noteq> [] then (Yield delta, Streaming rest (accumulated @ [delta]), s)
      else stream_loop rest accumulated s)"

text \<open>
  One \<^verbatim>\<open>next()\<close> on the generator. The first one appends the user turn and calls the
  daemon with the history that holds it. After the error chunk, the next one pops the
  last turn of the history (\<^verbatim>\<open>list.pop()\<close> raises IndexError on an empty list) and
  returns.
\<close>

fun gen_next ::
  "daemon \<Rightarrow> gen_state \<Rightarrow> OllamaChat \<Rightarrow> gen_result \<times> gen_state \<times> OllamaChat" where
  "gen_next D (Created user_text) s =
     (let s' = s\<lparr>history := history s @ [\<lparr>role = ''user'', content = user_text\<rparr>]\<rparr> in
      stream_loop (D (model s') (history s')) [] s')"
| "gen_next D (Streaming rest accumulated) s = stream_loop rest accumulated s"
| "gen_next D Failing s =
     (if history s = [] then (Propagates IndexError, Finished, s)
      else (Stop, Finished, s\<lparr>history := butlast (history s)\<rparr>))"
| "gen_next D Finished s = (Stop, Finished, s)"

subsection \<open>Draining the generator\<close>

text \<open>
  A \<^verbatim>\<open>for\<close> loop over the generator advances it until it stops, collecting what it
  yields. The loop ends because every chunk yielded consumes at least one record of the
  daemon's stream, which is finite; \<open>steps_left\<close> is the bound.
\<close>

fun stream_size :: "chat_stream \<Rightarrow> nat" where
  "stream_size StopIteration = 0"
| "stream_size (Raises e) = 0"
| "stream_size (Next c rest) = Suc (stream_size rest)"

fun steps_left :: "daemon \<Rightarrow> gen_state \<Rightarrow> OllamaChat \<Rightarrow> nat" where
  "steps_left D (Created user_text) s =
     stream_size (D (model s) (history s @ [\<lparr>role = ''user'', content = user_text\<rparr>])) + 3"
| "steps_left D (Streaming rest accumulated) s = stream_size rest + 2"
| "steps_left D Failing s = 1"
| "steps_left D Finished s = 0"

function drain ::
  "daemon \<Rightarrow> gen_state \<Rightarrow> OllamaChat \<Rightarrow> string list \<times> gen_result \<times> OllamaChat" where
  "drain D g s =
     (case gen_next D g s of
        (Yield c, g', s') \<Rightarrow> (case drain D g' s' of (cs, r, s'') \<Rightarrow> (c # cs, r, s''))
      | (Stop, g', s') \<Rightarrow> ([], Stop, s')
      | (Propagates e, g', s') \<Rightarrow> ([], Propagates e, s'))"
  by pat_completeness auto
termination
proof -
  have loop: "steps_left D g' s' < stream_size st + 2"
    if "stream_loop st acc s = (Yield c, g', s')" for D st acc s c g' s'
    using that
    by (induction st acc s rule: stream_loop.induct) (auto simp: Let_def split: if_splits)
  have advance: "steps_left D g' s' < steps_left D g s"
    if "(Yield c, g', s') = gen_next D g s" for D g s c g' s'
    using that [symmetric]
    by (cases g) (auto simp: Let_def split: if_splits dest: loop [where D = D])
  show ?thesis
    by (relation "measure (\<lambda>(D, g, s). steps_left D g s)") (auto dest: advance)
qed

declare drain.simps [simp del]

text \<open>
  One request, as \<^verbatim>\<open>do_stream\<close> makes it: call \<^verbatim>\<open>ask_stream\<close> and iterate the result
  to its end. The value is the list of chunks in the order yielded, how the iteration
  ended, and the session afterwards.
\<close>

definition request ::
  "daemon \<Rightarrow> string \<Rightarrow> OllamaChat \<Rightarrow> string list \<times> gen_result \<times> OllamaChat" where
  "request D user_text s = (case ask_stream user_text s of (g, s0) \<Rightarrow> drain D g s0)"

text \<open>
  A run of requests, one after the other, each with its text and with the daemon's
  behaviour at that moment; the session of one is the session the next one starts from.
\<close>

fun run_requests :: "(string \<times> daemon) list \<Rightarrow> OllamaChat \<Rightarrow> OllamaChat" where
  "run_requests [] s = s"
| "run_requests ((user_text, D) # rest) s =
     run_requests rest (snd (snd (request D user_text s)))"

subsection \<open>Reading a daemon stream as a whole\<close>

text \<open>
  How the stream ends (\<open>None\<close>: normally; \<open>Some e\<close>: by raising, with \<^verbatim>\<open>str(e) = e\<close>),
  the records it delivers before that, and the non-empty deltas among them.
\<close>

fun stream_error :: "chat_stream \<Rightarrow> string option" where
  "stream_error StopIteration = None"
| "stream_error (Raises e) = Some e"
| "stream_error (Next c rest) = stream_error rest"

fun records :: "chat_stream \<Rightarrow> chunk list" where
  "records StopIteration = []"
| "records (Raises e) = []"
| "records (Next c rest) = c # records rest"

definition deltas :: "chat_stream \<Rightarrow> string list" where
  "deltas st = filter (\<lambda>d. d \<noteq> []) (map delta_of (records st))"

text \<open>The stream the daemon answers with when the request \<open>user_text\<close> starts in \<open>s\<close>.\<close>

definition answer :: "daemon \<Rightarrow> string \<Rightarrow> OllamaChat \<Rightarrow> chat_stream" where
  "answer D user_text s =
     D (model s) (history s @ [\<lparr>role = ''user'', content = user_text\<rparr>])"

text \<open>Every request of the run ends normally, each judged in the session it starts from.\<close>

fun all_succeed :: "(string \<times> daemon) list \<Rightarrow> OllamaChat \<Rightarrow> bool" where
  "all_succeed [] s = True"
| "all_succeed ((user_text, D) # rest) s =
     (stream_error (answer D user_text s) = None \<and>
      all_succeed rest (snd (snd (request D user_text s))))"

text \<open>Every request of the run fails.\<close>

fun all_fail :: "(string \<times> daemon) list \<Rightarrow> OllamaChat \<Rightarrow> bool" where
  "all_fail [] s = True"
| "all_fail ((user_text, D) # rest) s =
     (stream_error (answer D user_text s) \<noteq> None \<and>
      all_fail rest (snd (snd (request D user_text s))))"

subsection \<open>The relay between the worker thread and the interface\<close>

text \<open>
  The updates of the interface that the worker schedules: the bound methods
  \<^verbatim>\<open>_append_assistant_header\<close>, \<^verbatim>\<open>_append_assistant_chunk\<close> with its chunk and
  \<^verbatim>\<open>set_input_enabled\<close> with its flag.
\<close>

datatype ui_update =
    AppendAssistantHeader
  | AppendAssistantChunk string
  | SetInputEnabled bool

text \<open>
  Where the thread running \<^verbatim>\<open>_stream_response(user_text)\<close> is: about to start, inside
  the \<^verbatim>\<open>for\<close> loop of \<^verbatim>\<open>do_stream\<close> with the generator it iterates, returned, or ended
  by an exception that left the generator.
\<close>

datatype worker_state =
    Starting string
  | Iterating gen_state
  | Returned
  | Crashed py_error

text \<open>
  The window: its chat session, its worker thread, the callbacks scheduled and not run
  yet, and the callbacks the interface thread has run, in the order it ran them.
\<close>

record ChatUI =
  chat :: OllamaChat
  worker :: worker_state
  pending :: "ui_update list"
  delivered :: "ui_update list"

text \<open>
  Modelled from the spec: the toolkit's \<^verbatim>\<open>after(0, callback, *args)\<close> and its event loop
  are not part of the repository. As the spec describes them (a thread-safe "schedule
  on UI thread" primitive, observed in the exact order scheduled), \<open>after\<close> puts the
  callback at the end of the queue of pending callbacks, and one turn of the event loop,
  \<open>ui_step\<close>, runs the callback at the front of the queue, if there is one.
\<close>

definition after :: "ui_update \<Rightarrow> ChatUI \<Rightarrow> ChatUI" where
  "after u c = c\<lparr>pending := pending c @ [u]\<rparr>"

definition ui_step :: "ChatUI \<Rightarrow> ChatUI" where
  "ui_step c =
     (case pending c of
        [] \<Rightarrow> c
      | u # rest \<Rightarrow> c\<lparr>pending := rest, delivered := delivered c @ [u]\<rparr>)"

text \<open>
  \<^verbatim>\<open>on_send\<close> starts the thread with target \<^verbatim>\<open>_stream_response\<close> and argument the text.
\<close>

definition stream_response_start :: "string \<Rightarrow> OllamaChat \<Rightarrow> ChatUI" where
  "stream_response_start user_text s =
     \<lparr>chat = s, worker = Starting user_text, pending = [], delivered = []\<rparr>"

text \<open>
  One move of the worker thread in \<^verbatim>\<open>_stream_response\<close>. First it schedules the
  header and calls \<^verbatim>\<open>ask_stream\<close>; then each move advances the generator once: a chunk
  is scheduled for the transcript, the end of the sequence leaves the loop and schedules
  the re-enabling of the input, and an exception from the generator ends the thread
  with nothing scheduled. A thread that has ended does nothing.
\<close>

definition worker_step :: "daemon \<Rightarrow> ChatUI \<Rightarrow> ChatUI" where
  "worker_step D c =
     (case worker c of
        Starting user_text \<Rightarrow>
          (let c1 = after AppendAssistantHeader c in
           case ask_stream user_text (chat c1) of
             (g, s0) \<Rightarrow> c1\<lparr>chat := s0, worker := Iterating g\<rparr>)
      | Iterating g \<Rightarrow>
          (case gen_next D g (chat c) of
             (Yield chunk, g', s') \<Rightarrow>
               after (AppendAssistantChunk chunk) (c\<lparr>chat := s', worker := Iterating g'\<rparr>)
           | (Stop, g', s') \<Rightarrow>
               after (SetInputEnabled True) (c\<lparr>chat := s', worker := Returned\<rparr>)
           | (Propagates e, g', s') \<Rightarrow> c\<lparr>chat := s', worker := Crashed e\<rparr>)
      | Returned \<Rightarrow> c
      | Crashed e \<Rightarrow> c)"

text \<open>
  The two threads run interleaved in any order; a schedule says which of them moves
  next.
\<close>

datatype actor = Worker | UI

fun run_schedule :: "daemon \<Rightarrow> actor list \<Rightarrow> ChatUI \<Rightarrow> ChatUI" where
  "run_schedule D [] c = c"
| "run_schedule D (a # sched) c =
     run_schedule D sched (case a of Worker \<Rightarrow> worker_step D c | UI \<Rightarrow> ui_step c)"

subsection \<open>What is still to be scheduled\<close>

text \<open>
  For the proofs: all the updates of one request, and, for a state of the relay, the
  updates the worker has still to schedule (\<open>None\<close> when the state is not one of this
  request or the worker is going to end by an exception).
\<close>

definition scheduled :: "daemon \<Rightarrow> string \<Rightarrow> OllamaChat \<Rightarrow> ui_update list" where
  "scheduled D user_text s =
     AppendAssistantHeader # map AppendAssistantChunk (fst (request D user_text s)) @
     [SetInputEnabled True]"

definition to_come :: "daemon \<Rightarrow> string \<Rightarrow> OllamaChat \<Rightarrow> ChatUI \<Rightarrow> ui_update list option" where
  "to_come D t s c =
     (case worker c of
        Starting t' \<Rightarrow>
          (if t' = t \<and> chat c = s then Some (scheduled D t s) else None)
      | Iterating g \<Rightarrow>
          (case drain D g (chat c) of
             (cs, Stop, s') \<Rightarrow> Some (map AppendAssistantChunk cs @ [SetInputEnabled True])
           | (cs, r, s') \<Rightarrow> None)
      | Returned \<Rightarrow> Some []
      | Crashed e \<Rightarrow> None)"

definition relay_inv :: "daemon \<Rightarrow> string \<Rightarrow> OllamaChat \<Rightarrow> ChatUI \<Rightarrow> bool" where
  "relay_inv D t s c \<longleftrightarrow>
     (\<exists>later. to_come D t s c = Some later \<and>
        delivered c @ pending c @ later = scheduled D t s)"

section \<open>What a drained request does\<close>

text \<open>
  The step-by-step generator, drained, has a closed form: the chunks are the non-empty
  deltas of the daemon's stream, followed by the error text when the stream raises; the
  session gains the user turn and the assistant turn when the stream ends normally and
  is back where it started when it raises.
\<close>

lemma deltas_simps [simp]:
  "deltas StopIteration = []"
  "deltas (Raises e) = []"
  "deltas (Next c rest) = (if delta_of c \<noteq> [] then delta_of c # deltas rest else deltas rest)"
  by (simp_all add: deltas_def)

lemma drain_Finished: "drain D Finished s = ([], Stop, s)"
  by (simp add: drain.simps)

lemma drain_Failing:
  "history s \<noteq> [] \<Longrightarrow> drain D Failing s = ([], Stop, s\<lparr>history := butlast (history s)\<rparr>)"
  by (simp add: drain.simps)

lemma drain_Streaming:
  "history s \<noteq> [] \<Longrightarrow>
   drain D (Streaming st acc) s =
     (case stream_error st of
        None \<Rightarrow> (deltas st, Stop,
                 s\<lparr>history := history s @ [\<lparr>role = ''assistant'', content = concat (acc @ deltas st)\<rparr>]\<rparr>)
      | Some e \<Rightarrow> (deltas st @ [err_text e (model s)], Stop,
                   s\<lparr>history := butlast (history s)\<rparr>))"
proof (induction st arbitrary: acc)
  case StopIteration
  then show ?case by (simp add: drain.simps)
next
  case (Raises e)
  then show ?case by (simp add: drain.simps [of D "Streaming _ _"] drain_Failing)
next
  case (Next c rest)
  show ?case
  proof (cases "delta_of c = []")
    case True
    have "drain D (Streaming (Next c rest) acc) s = drain D (Streaming rest acc) s"
      using True by (simp add: drain.simps [of D "Streaming _ _"])
    then show ?thesis using Next True by (simp split: option.splits)
  next
    case False
    have "drain D (Streaming (Next c rest) acc) s =
          (case drain D (Streaming rest (acc @ [delta_of c])) s of (cs, r, s'') \<Rightarrow> (delta_of c # cs, r, s''))"
      using False by (simp add: drain.simps [of D "Streaming (Next _ _) _"] Let_def split: prod.splits)
    then show ?thesis using Next False by (simp split: option.splits)
  qed
qed

lemma drain_Created:
  "drain D (Created t) s =
     (case stream_error (answer D t s) of
        None \<Rightarrow> (deltas (answer D t s), Stop,
                 s\<lparr>history := history s @ [\<lparr>role = ''user'', content = t\<rparr>,
                     \<lparr>role = ''assistant'', content = concat (deltas (answer D t s))\<rparr>]\<rparr>)
      | Some e \<Rightarrow> (deltas (answer D t s) @ [err_text e (model s)], Stop, s))"
proof -
  let ?s' = "s\<lparr>history := history s @ [\<lparr>role = ''user'', content = t\<rparr>]\<rparr>"
  have ne: "history ?s' \<noteq> []" by simp
  have "drain D (Created t) s = drain D (Streaming (answer D t s) []) ?s'"
    by (simp add: drain.simps [of D "Created _"] drain.simps [of D "Streaming _ _"] answer_def Let_def)
  then show ?thesis
    using drain_Streaming [OF ne, of D "answer D t s" "[]"]
    by (simp split: option.splits)
qed

lemma request_eq:
  "request D t s =
     (case stream_error (answer D t s) of
        None \<Rightarrow> (deltas (answer D t s), Stop,
                 s\<lparr>history := history s @ [\<lparr>role = ''user'', content = t\<rparr>,
                     \<lparr>role = ''assistant'', content = concat (deltas (answer D t s))\<rparr>]\<rparr>)
      | Some e \<Rightarrow> (deltas (answer D t s) @ [err_text e (model s)], Stop, s))"
  by (simp add: request_def ask_stream_def drain_Created)

lemma stream_loop_failing_session:
  "stream_error st = Some e \<Longrightarrow> snd (snd (stream_loop st acc s)) = s"
  by (induction st acc s rule: stream_loop.induct) (auto simp: Let_def)

lemma request_failure:
  "stream_error (answer D t s) = Some e \<Longrightarrow>
   request D t s = (deltas (answer D t s) @ [err_text e (model s)], Stop, s)"
  by (simp add: request_eq)

lemma request_success:
  "stream_error (answer D t s) = None \<Longrightarrow>
   request D t s =
     (deltas (answer D t s), Stop,
      s\<lparr>history := history s @ [\<lparr>role = ''user'', content = t\<rparr>,
          \<lparr>role = ''assistant'', content = concat (deltas (answer D t s))\<rparr>]\<rparr>)"
  by (simp add: request_eq)

lemma request_history_cases:
  "history (snd (snd (request D t s))) = history s \<or>
   (\<exists>a. history (snd (snd (request D t s))) =
      history s @ [\<lparr>role = ''user'', content = t\<rparr>, \<lparr>role = ''assistant'', content = a\<rparr>])"
  by (cases "stream_error (answer D t s)") (simp_all add: request_eq)

lemma run_requests_success_history:
  "all_succeed reqs s \<Longrightarrow>
   \<exists>new. history (run_requests reqs s) = history s @ new \<and>
         map role new = concat (replicate (length reqs) [''user'', ''assistant''])"
proof (induction reqs arbitrary: s)
  case Nil
  then show ?case by simp
next
  case (Cons q reqs)
  obtain t D where q: "q = (t, D)" by (cases q)
  let ?s1 = "snd (snd (request D t s))"
  from Cons.prems q have ok: "stream_error (answer D t s) = None" and rest: "all_succeed reqs ?s1"
    by simp_all
  from Cons.IH [OF rest] obtain new where
    new: "history (run_requests reqs ?s1) = history ?s1 @ new"
      "map role new = concat (replicate (length reqs) [''user'', ''assistant''])"
    by blast
  have h1: "history ?s1 = history s @ [\<lparr>role = ''user'', content = t\<rparr>,
      \<lparr>role = ''assistant'', content = concat (deltas (answer D t s))\<rparr>]"
    using ok by (simp add: request_success)
  show ?case
    using new h1 q
    by (intro exI [of _ "[\<lparr>role = ''user'', content = t\<rparr>,
      \<lparr>role = ''assistant'', content = concat (deltas (answer D t s))\<rparr>] @ new"]) simp
qed

lemma run_requests_keeps_prefix:
  "\<exists>new. history (run_requests reqs s) = history s @ new"
proof (induction reqs arbitrary: s)
  case Nil
  then show ?case by simp
next
  case (Cons q reqs)
  obtain t D where q: "q = (t, D)" by (cases q)
  let ?s1 = "snd (snd (request D t s))"
  from Cons.IH [of ?s1] obtain new where
    new: "history (run_requests reqs ?s1) = history ?s1 @ new" by blast
  from request_history_cases [of D t s] show ?case
    using new q by auto
qed

lemma stream_loop_history_prefix:
  "\<exists>rest. history (snd (snd (stream_loop st acc s))) = history s @ rest"
  by (induction st acc s rule: stream_loop.induct) (auto simp: Let_def)

lemma stream_loop_yield_session:
  "stream_loop st acc s = (Yield c, g', s') \<Longrightarrow> s' = s"
  by (induction st acc s rule: stream_loop.induct) (auto simp: Let_def split: if_splits)

subsection \<open>The relay keeps the order\<close>

lemma request_stops: "fst (snd (request D t s)) = Stop"
  by (cases "stream_error (answer D t s)") (simp_all add: request_eq)

lemma relay_inv_start: "relay_inv D t s (stream_response_start t s)"
  by (simp add: relay_inv_def to_come_def stream_response_start_def)

lemma relay_inv_ui_step: "relay_inv D t s c \<Longrightarrow> relay_inv D t s (ui_step c)"
  by (cases "pending c") (auto simp: relay_inv_def to_come_def ui_step_def split: worker_state.splits)

lemma to_come_worker_step:
  assumes "to_come D t s c = Some later"
  shows "\<exists>new later'. pending (worker_step D c) = pending c @ new \<and>
           delivered (worker_step D c) = delivered c \<and>
           to_come D t s (worker_step D c) = Some later' \<and> new @ later' = later \<and>
           length later' = length later - 1"
proof (cases "worker c")
  case (Starting t')
  with assms have eq: "t' = t" "chat c = s" "later = scheduled D t s"
    by (auto simp: to_come_def split: if_splits)
  obtain cs s' where r: "drain D (Created t) s = (cs, Stop, s')"
    using request_stops [of D t s]
    by (cases "drain D (Created t) s") (auto simp: request_def ask_stream_def)
  show ?thesis
    using Starting eq r
    by (simp add: to_come_def worker_step_def after_def ask_stream_def scheduled_def request_def)
next
  case (Iterating g)
  with assms obtain cs s' where d: "drain D g (chat c) = (cs, Stop, s')"
    and l: "later = map AppendAssistantChunk cs @ [SetInputEnabled True]"
    by (auto simp: to_come_def split: prod.splits gen_result.splits)
  obtain r g' s1 where n: "gen_next D g (chat c) = (r, g', s1)"
    by (cases "gen_next D g (chat c)")
  show ?thesis
  proof (cases r)
    case (Yield ch)
    with d n obtain cs' where "drain D g' s1 = (cs', Stop, s')" "cs = ch # cs'"
      by (subst (asm) drain.simps) (auto split: prod.splits)
    then show ?thesis
      using Iterating n Yield l by (simp add: to_come_def worker_step_def after_def)
  next
    case Stop
    with d n have "cs = []"
      by (subst (asm) drain.simps) auto
    then show ?thesis
      using Iterating n Stop l by (simp add: to_come_def worker_step_def after_def)
  next
    case (Propagates e)
    with d n have False
      by (subst (asm) drain.simps) auto
    then show ?thesis ..
  qed
next
  case Returned
  with assms show ?thesis by (simp add: to_come_def worker_step_def)
next
  case (Crashed e)
  with assms show ?thesis by (simp add: to_come_def)
qed

lemma relay_inv_worker_step: "relay_inv D t s c \<Longrightarrow> relay_inv D t s (worker_step D c)"
  unfolding relay_inv_def using to_come_worker_step [of D t s c] by fastforce

lemma relay_inv_run: "relay_inv D t s c \<Longrightarrow> relay_inv D t s (run_schedule D sched c)"
  by (induction sched arbitrary: c)
     (auto simp: relay_inv_worker_step relay_inv_ui_step split: actor.splits)


lemma to_come_ui_step: "to_come D t s (ui_step c) = to_come D t s c"
  by (cases "pending c") (simp_all add: to_come_def ui_step_def split: worker_state.splits)

lemma to_come_run:
  "to_come D t s c = Some later \<Longrightarrow>
   \<exists>later'. to_come D t s (run_schedule D sched c) = Some later' \<and>
     length later' = length later - length (filter (\<lambda>a. a = Worker) sched)"
proof (induction sched arbitrary: c later)
  case Nil
  then show ?case by simp
next
  case (Cons a sched)
  show ?case
  proof (cases a)
    case Worker
    from to_come_worker_step [OF Cons.prems] obtain later1 where
      l1: "to_come D t s (worker_step D c) = Some later1" "length later1 = length later - 1"
      by blast
    from Cons.IH [OF l1(1)] l1(2) Worker show ?thesis by auto
  next
    case UI
    from Cons.prems have "to_come D t s (ui_step c) = Some later"
      by (simp only: to_come_ui_step)
    from Cons.IH [OF this] UI show ?thesis by auto
  qed
qed

lemma to_come_Nil_Returned: "to_come D t s c = Some [] \<Longrightarrow> worker c = Returned"
  by (cases "worker c")
     (auto simp: to_come_def scheduled_def split: if_splits prod.splits gen_result.splits)

lemma to_come_Returned: "worker c = Returned \<Longrightarrow> to_come D t s c = Some []"
  by (simp add: to_come_def)

lemma run_schedule_append:
  "run_schedule D (sched1 @ sched2) c = run_schedule D sched2 (run_schedule D sched1 c)"
  by (induction sched1 arbitrary: c) simp_all

lemma run_ui_flush:
  "length (pending c) \<le> k \<Longrightarrow>
   pending (run_schedule D (replicate k UI) c) = [] \<and>
   delivered (run_schedule D (replicate k UI) c) = delivered c @ pending c"
proof (induction k arbitrary: c)
  case 0
  then show ?case by simp
next
  case (Suc k)
  show ?case
  proof (cases "pending c")
    case Nil
    then have "ui_step c = c" by (simp add: ui_step_def)
    with Suc.IH [of c] Nil show ?thesis by simp
  next
    case (Cons u rest)
    then have u: "pending (ui_step c) = rest" "delivered (ui_step c) = delivered c @ [u]"
      by (simp_all add: ui_step_def)
    with Suc.prems Cons have "length (pending (ui_step c)) \<le> k" by simp
    from Suc.IH [OF this] u Cons show ?thesis by simp
  qed
qed

section \<open>Properties of the session and of the relay\<close>

subsection \<open>Session creation\<close>

text \<open>
  Claim C10. A session constructed with the empty system-prompt string has no system
  turn: its history starts empty. A session constructed with a non-empty system prompt
  starts with exactly one turn, the system turn holding that prompt text.
\<close>

theorem init_history:
  "history (OllamaChat_init m []) = [] \<and>
   (system_prompt \<noteq> [] \<longrightarrow>
      history (OllamaChat_init m system_prompt) = [\<lparr>role = ''system'', content = system_prompt\<rparr>])"
  by (simp add: OllamaChat_init_def)

theorem init_history_witness:
  "''You are terse.'' \<noteq> [] \<and>
   history (OllamaChat_init ''llama3.1'' ''You are terse.'') =
     [\<lparr>role = ''system'', content = ''You are terse.''\<rparr>]"
  using init_history [of "''llama3.1''" "''You are terse.''"] by simp

subsection \<open>A failing request\<close>

text \<open>
  Claim C1. When the daemon client raises during a request, then once the sequence of
  \<^verbatim>\<open>ask_stream\<close> has been iterated to its end the session is exactly what it was before
  the request: the user turn that the first step appended is gone again, no assistant
  turn was added, and the history has the length it had before.
\<close>

theorem rollback_on_failure:
  assumes "stream_error (answer D user_text s) = Some e"
  shows "history (snd (snd (gen_next D (fst (ask_stream user_text s)) s))) =
           history s @ [\<lparr>role = ''user'', content = user_text\<rparr>] \<and>
         fst (snd (request D user_text s)) = Stop \<and>
         snd (snd (request D user_text s)) = s \<and>
         history (snd (snd (request D user_text s))) = history s \<and>
         length (history (snd (snd (request D user_text s)))) = length (history s)"
proof -
  let ?s' = "s\<lparr>history := history s @ [\<lparr>role = ''user'', content = user_text\<rparr>]\<rparr>"
  have "snd (snd (gen_next D (fst (ask_stream user_text s)) s)) = ?s'"
    using assms stream_loop_failing_session [of "answer D user_text s" e "[]" ?s']
    by (simp add: ask_stream_def answer_def Let_def)
  then show ?thesis
    using assms by (simp add: request_failure)
qed

theorem rollback_on_failure_witness:
  "stream_error (answer (\<lambda>m h. Raises ''connection refused'') ''2+2?''
      (OllamaChat_init ''llama3.1'' ''You are terse.'')) = Some ''connection refused'' \<and>
   history (snd (snd (request (\<lambda>m h. Raises ''connection refused'') ''2+2?''
      (OllamaChat_init ''llama3.1'' ''You are terse.'')))) =
     [\<lparr>role = ''system'', content = ''You are terse.''\<rparr>]"
proof -
  have h: "stream_error (answer (\<lambda>m h. Raises ''connection refused'') ''2+2?''
      (OllamaChat_init ''llama3.1'' ''You are terse.'')) = Some ''connection refused''"
    by (simp add: answer_def)
  show ?thesis
    using h rollback_on_failure [OF h] by (simp add: OllamaChat_init_def)
qed

text \<open>
  Claim C4. When the daemon client raises while \<^verbatim>\<open>ask_stream\<close> is producing chunks, the
  sequence yields the deltas received so far and then exactly one final chunk, which
  holds the text of the error followed by the hint that names the Ollama daemon and the
  session's model; after it the sequence ends normally (the iteration stops, no
  exception leaves the generator), and the history has the same assistant turns as
  before.
\<close>

theorem error_chunk_on_failure:
  assumes "stream_error (answer D user_text s) = Some e"
  shows "\<exists>chunks. request D user_text s =
           (chunks @
              [''[Error] '' @ e @ [CHR 0x0A] @
               ''Make sure the Ollama daemon is running and the model '' @
               [CHR 0x27] @ model s @ [CHR 0x27] @ '' is pulled.''],
            Stop, snd (snd (request D user_text s))) \<and>
         chunks = filter (\<lambda>d. d \<noteq> []) (map delta_of (records (answer D user_text s))) \<and>
         filter (\<lambda>t. role t = ''assistant'') (history (snd (snd (request D user_text s)))) =
           filter (\<lambda>t. role t = ''assistant'') (history s)"
  using assms by (simp add: request_failure err_text_def deltas_def)

theorem error_chunk_on_failure_witness:
  "stream_error (answer
      (\<lambda>m h. Next (Chunk (Some (Message (Some ''4'')))) (Raises ''connection refused''))
      ''2+2?'' (OllamaChat_init ''llama3.1'' ''You are terse.'')) = Some ''connection refused'' \<and>
   fst (request
      (\<lambda>m h. Next (Chunk (Some (Message (Some ''4'')))) (Raises ''connection refused''))
      ''2+2?'' (OllamaChat_init ''llama3.1'' ''You are terse.'')) =
     [''4'',
      ''[Error] connection refused'' @ [CHR 0x0A] @
      ''Make sure the Ollama daemon is running and the model '' @
      [CHR 0x27] @ ''llama3.1'' @ [CHR 0x27] @ '' is pulled.'']"
proof -
  let ?D = "\<lambda>m h. Next (Chunk (Some (Message (Some ''4'')))) (Raises ''connection refused'')"
  let ?s = "OllamaChat_init ''llama3.1'' ''You are terse.''"
  have h: "stream_error (answer ?D ''2+2?'' ?s) = Some ''connection refused''"
    by (simp add: answer_def)
  have m: "model ?s = ''llama3.1''"
    by (simp add: OllamaChat_init_def)
  have r: "records (answer ?D ''2+2?'' ?s) = [Chunk (Some (Message (Some ''4'')))]"
    by (simp add: answer_def)
  from error_chunk_on_failure [OF h] obtain chunks where
    c: "request ?D ''2+2?'' ?s =
           (chunks @
              [''[Error] '' @ ''connection refused'' @ [CHR 0x0A] @
               ''Make sure the Ollama daemon is running and the model '' @
               [CHR 0x27] @ model ?s @ [CHR 0x27] @ '' is pulled.''],
            Stop, snd (snd (request ?D ''2+2?'' ?s)))"
      "chunks = filter (\<lambda>d. d \<noteq> []) (map delta_of (records (answer ?D ''2+2?'' ?s)))"
    by blast
  have "chunks = [''4'']"
    using c(2) r by (simp add: delta_of_def)
  then have "fst (request ?D ''2+2?'' ?s) =
     [''4'',
      ''[Error] connection refused'' @ [CHR 0x0A] @
      ''Make sure the Ollama daemon is running and the model '' @
      [CHR 0x27] @ ''llama3.1'' @ [CHR 0x27] @ '' is pulled.'']"
    using c(1) m by (metis append_Cons append_Nil fst_conv)
  with h show ?thesis by simp
qed

subsection \<open>A successful request\<close>

text \<open>
  Claim C2. A request whose daemon stream ends normally, once iterated to its end,
  appends after the user turn exactly one assistant turn, whose content is the
  concatenation, in the order yielded, of all the chunks the request yielded. In
  particular, with the system prompt "You are terse.", the user text "2+2?" and the
  daemon stream ["4"], the history is the system turn, the user turn "2+2?" and the
  assistant turn "4".
\<close>

theorem commit_on_success:
  "(stream_error (answer D user_text s) = None \<longrightarrow>
      (\<exists>chunks s'. request D user_text s = (chunks, Stop, s') \<and>
         history s' = history s @
           [\<lparr>role = ''user'', content = user_text\<rparr>,
            \<lparr>role = ''assistant'', content = concat chunks\<rparr>])) \<and>
   history (snd (snd (request (\<lambda>m h. Next (Chunk (Some (Message (Some ''4'')))) StopIteration)
      ''2+2?'' (OllamaChat_init m0 ''You are terse.'')))) =
     [\<lparr>role = ''system'', content = ''You are terse.''\<rparr>,
      \<lparr>role = ''user'', content = ''2+2?''\<rparr>,
      \<lparr>role = ''assistant'', content = ''4''\<rparr>]"
proof (intro conjI impI)
  assume ok: "stream_error (answer D user_text s) = None"
  show "\<exists>chunks s'. request D user_text s = (chunks, Stop, s') \<and>
         history s' = history s @
           [\<lparr>role = ''user'', content = user_text\<rparr>,
            \<lparr>role = ''assistant'', content = concat chunks\<rparr>]"
    using request_success [OF ok] by simp
next
  let ?D = "\<lambda>m h. Next (Chunk (Some (Message (Some ''4'')))) StopIteration"
  have ok: "stream_error (answer ?D ''2+2?'' (OllamaChat_init m0 ''You are terse.'')) = None"
    by (simp add: answer_def)
  show "history (snd (snd (request ?D ''2+2?'' (OllamaChat_init m0 ''You are terse.'')))) =
     [\<lparr>role = ''system'', content = ''You are terse.''\<rparr>,
      \<lparr>role = ''user'', content = ''2+2?''\<rparr>,
      \<lparr>role = ''assistant'', content = ''4''\<rparr>]"
    using request_success [OF ok] by (simp add: answer_def OllamaChat_init_def delta_of_def)
qed

theorem commit_on_success_witness:
  "stream_error (answer
      (\<lambda>m h. Next (Chunk (Some (Message (Some ''Hel''))))
               (Next (Chunk None) (Next (Chunk (Some (Message (Some ''lo'')))) StopIteration)))
      ''hi'' (OllamaChat_init ''llama3.1'' [])) = None \<and>
   (\<exists>chunks s'. request
      (\<lambda>m h. Next (Chunk (Some (Message (Some ''Hel''))))
               (Next (Chunk None) (Next (Chunk (Some (Message (Some ''lo'')))) StopIteration)))
      ''hi'' (OllamaChat_init ''llama3.1'' []) = (chunks, Stop, s') \<and>
      history s' = [\<lparr>role = ''user'', content = ''hi''\<rparr>,
                    \<lparr>role = ''assistant'', content = concat chunks\<rparr>])"
proof -
  let ?D = "\<lambda>m h. Next (Chunk (Some (Message (Some ''Hel''))))
               (Next (Chunk None) (Next (Chunk (Some (Message (Some ''lo'')))) StopIteration))"
  let ?s = "OllamaChat_init ''llama3.1'' []"
  have h: "stream_error (answer ?D ''hi'' ?s) = None"
    by (simp add: answer_def)
  have e: "history ?s = []"
    by (simp add: OllamaChat_init_def)
  show ?thesis
    using commit_on_success [of ?D "''hi''" ?s] h e by simp
qed

text \<open>
  Claim C3. After any run of N successful requests on a fresh session, each iterated to
  its end, the history has length (1 if the system prompt is non-empty, else 0) + 2N,
  and after the system turn, if there is one, the roles are user, assistant, user,
  assistant, and so on.
\<close>

theorem history_after_successes:
  assumes "all_succeed reqs (OllamaChat_init m system_prompt)"
  shows "length (history (run_requests reqs (OllamaChat_init m system_prompt))) =
           (if system_prompt \<noteq> [] then 1 else 0) + 2 * length reqs \<and>
         map role (drop (if system_prompt \<noteq> [] then 1 else 0)
                     (history (run_requests reqs (OllamaChat_init m system_prompt)))) =
           concat (replicate (length reqs) [''user'', ''assistant''])"
proof -
  let ?s0 = "OllamaChat_init m system_prompt"
  from run_requests_success_history [OF assms] obtain new where
    new: "history (run_requests reqs ?s0) = history ?s0 @ new"
      "map role new = concat (replicate (length reqs) [''user'', ''assistant''])"
    by blast
  have len0: "length (history ?s0) = (if system_prompt \<noteq> [] then 1 else 0)"
    by (simp add: OllamaChat_init_def)
  have "length new = length (concat (replicate (length reqs) [''user'', ''assistant'']))"
    using new(2) by (metis length_map)
  also have "\<dots> = 2 * length reqs"
    by (induction reqs) simp_all
  finally have lnew: "length new = 2 * length reqs" .
  show ?thesis
    using new len0 lnew by simp
qed

theorem history_after_successes_witness:
  "all_succeed
     [(''2+2?'', \<lambda>m h. Next (Chunk (Some (Message (Some ''4'')))) StopIteration),
      (''3+3?'', \<lambda>m h. Next (Chunk (Some (Message (Some ''6'')))) StopIteration)]
     (OllamaChat_init ''llama3.1'' ''You are terse.'') \<and>
   length (history (run_requests
     [(''2+2?'', \<lambda>m h. Next (Chunk (Some (Message (Some ''4'')))) StopIteration),
      (''3+3?'', \<lambda>m h. Next (Chunk (Some (Message (Some ''6'')))) StopIteration)]
     (OllamaChat_init ''llama3.1'' ''You are terse.''))) = 5"
proof -
  have h: "all_succeed
     [(''2+2?'', \<lambda>m h. Next (Chunk (Some (Message (Some ''4'')))) StopIteration),
      (''3+3?'', \<lambda>m h. Next (Chunk (Some (Message (Some ''6'')))) StopIteration)]
     (OllamaChat_init ''llama3.1'' ''You are terse.'')"
    by (simp add: answer_def)
  show ?thesis
    using h history_after_successes [OF h] by simp
qed

text \<open>
  Claim C9. A record of the daemon's stream whose message or whose content is missing,
  or whose content is the empty string, has the empty delta. The chunks a request
  yields are exactly the non-empty deltas of the records, in order (followed by the
  error chunk when the stream raises), so such a record yields no chunk; on the success
  path every chunk yielded is a non-empty string, and the content of the assistant turn
  is the concatenation of the non-empty deltas only.
\<close>

theorem empty_deltas_skipped:
  "(delta_of c = [] \<longleftrightarrow>
      message_field c = None \<or>
      (\<exists>m. message_field c = Some m \<and> (content_field m = None \<or> content_field m = Some []))) \<and>
   fst (request D user_text s) =
     filter (\<lambda>d. d \<noteq> []) (map delta_of (records (answer D user_text s))) @
     (case stream_error (answer D user_text s) of
        None \<Rightarrow> [] | Some e \<Rightarrow> [err_text e (model s)]) \<and>
   (stream_error (answer D user_text s) = None \<longrightarrow>
      (\<forall>d \<in> set (fst (request D user_text s)). d \<noteq> []) \<and>
      history (snd (snd (request D user_text s))) =
        history s @
          [\<lparr>role = ''user'', content = user_text\<rparr>,
           \<lparr>role = ''assistant'',
            content = concat (filter (\<lambda>d. d \<noteq> []) (map delta_of (records (answer D user_text s))))\<rparr>])"
proof (intro conjI impI)
  show "delta_of c = [] \<longleftrightarrow>
      message_field c = None \<or>
      (\<exists>m. message_field c = Some m \<and> (content_field m = None \<or> content_field m = Some []))"
    by (auto simp: delta_of_def split: option.splits)
next
  show "fst (request D user_text s) =
     filter (\<lambda>d. d \<noteq> []) (map delta_of (records (answer D user_text s))) @
     (case stream_error (answer D user_text s) of
        None \<Rightarrow> [] | Some e \<Rightarrow> [err_text e (model s)])"
    by (simp add: request_eq deltas_def split: option.splits)
next
  assume ok: "stream_error (answer D user_text s) = None"
  show "\<forall>d \<in> set (fst (request D user_text s)). d \<noteq> []"
    by (simp add: request_success [OF ok] deltas_def)
  show "history (snd (snd (request D user_text s))) =
        history s @
          [\<lparr>role = ''user'', content = user_text\<rparr>,
           \<lparr>role = ''assistant'',
            content = concat (filter (\<lambda>d. d \<noteq> []) (map delta_of (records (answer D user_text s))))\<rparr>]"
    by (simp add: request_success [OF ok] deltas_def)
qed

theorem empty_deltas_skipped_witness:
  "stream_error (answer
      (\<lambda>m h. Next (Chunk (Some (Message (Some ''Hel''))))
               (Next (Chunk None)
                 (Next (Chunk (Some (Message None)))
                   (Next (Chunk (Some (Message (Some []))))
                     (Next (Chunk (Some (Message (Some ''lo'')))) StopIteration)))))
      ''hi'' (OllamaChat_init ''llama3.1'' [])) = None \<and>
   fst (request
      (\<lambda>m h. Next (Chunk (Some (Message (Some ''Hel''))))
               (Next (Chunk None)
                 (Next (Chunk (Some (Message None)))
                   (Next (Chunk (Some (Message (Some []))))
                     (Next (Chunk (Some (Message (Some ''lo'')))) StopIteration)))))
      ''hi'' (OllamaChat_init ''llama3.1'' [])) = [''Hel'', ''lo''] \<and>
   history (snd (snd (request
      (\<lambda>m h. Next (Chunk (Some (Message (Some ''Hel''))))
               (Next (Chunk None)
                 (Next (Chunk (Some (Message None)))
                   (Next (Chunk (Some (Message (Some []))))
                     (Next (Chunk (Some (Message (Some ''lo'')))) StopIteration)))))
      ''hi'' (OllamaChat_init ''llama3.1'' [])))) =
     [\<lparr>role = ''user'', content = ''hi''\<rparr>, \<lparr>role = ''assistant'', content = ''Hello''\<rparr>]"
proof -
  let ?D = "\<lambda>m h. Next (Chunk (Some (Message (Some ''Hel''))))
               (Next (Chunk None)
                 (Next (Chunk (Some (Message None)))
                   (Next (Chunk (Some (Message (Some []))))
                     (Next (Chunk (Some (Message (Some ''lo'')))) StopIteration))))"
  let ?s = "OllamaChat_init ''llama3.1'' []"
  have h: "stream_error (answer ?D ''hi'' ?s) = None"
    by (simp add: answer_def)
  have r: "filter (\<lambda>d. d \<noteq> []) (map delta_of (records (answer ?D ''hi'' ?s))) = [''Hel'', ''lo'']"
    by (simp add: answer_def delta_of_def)
  have e: "history ?s = []"
    by (simp add: OllamaChat_init_def)
  show ?thesis
    using empty_deltas_skipped [of "Chunk None" ?D "''hi''" ?s] h r e by simp
qed

subsection \<open>Runs of requests\<close>

text \<open>
  Claim C5. When the session is created with a system turn (a non-empty system prompt),
  that turn is the first element of the history after every request of any run of
  requests, whichever of them succeed and whichever fail, any number of failures in a
  row included.
\<close>

theorem system_turn_stays_first:
  assumes "system_prompt \<noteq> []"
  shows "\<exists>rest. history (run_requests reqs (OllamaChat_init m system_prompt)) =
           \<lparr>role = ''system'', content = system_prompt\<rparr> # rest"
proof -
  from run_requests_keeps_prefix [of reqs "OllamaChat_init m system_prompt"] obtain new where
    "history (run_requests reqs (OllamaChat_init m system_prompt)) =
       history (OllamaChat_init m system_prompt) @ new"
    by blast
  then show ?thesis
    using assms by (simp add: OllamaChat_init_def)
qed

theorem system_turn_stays_first_witness:
  "''You are terse.'' \<noteq> [] \<and>
   (\<exists>rest. history (run_requests
      [(''a'', \<lambda>m h. Raises ''connection refused''),
       (''b'', \<lambda>m h. Raises ''model not found''),
       (''c'', \<lambda>m h. Next (Chunk (Some (Message (Some ''4'')))) StopIteration),
       (''d'', \<lambda>m h. Next (Chunk (Some (Message (Some ''4'')))) (Raises ''reset''))]
      (OllamaChat_init ''llama3.1'' ''You are terse.'')) =
        \<lparr>role = ''system'', content = ''You are terse.''\<rparr> # rest)"
proof -
  have h: "''You are terse.'' \<noteq> []" by simp
  show ?thesis
    using h system_turn_stays_first [OF h] by blast
qed

text \<open>
  Claim C8. Two failing requests in a row, each iterated to its end, leave the session,
  and so its history, exactly as it was before the first of them.
\<close>

theorem rollback_twice:
  assumes "all_fail [(text1, D1), (text2, D2)] s"
  shows "run_requests [(text1, D1), (text2, D2)] s = s \<and>
         history (run_requests [(text1, D1), (text2, D2)] s) = history s"
proof -
  from assms obtain e1 where e1: "stream_error (answer D1 text1 s) = Some e1"
    by auto
  then have s1: "snd (snd (request D1 text1 s)) = s"
    by (simp add: request_failure)
  with assms obtain e2 where e2: "stream_error (answer D2 text2 s) = Some e2"
    by auto
  then have s2: "snd (snd (request D2 text2 s)) = s"
    by (simp add: request_failure)
  show ?thesis
    using s1 s2 by simp
qed

theorem rollback_twice_witness:
  "all_fail [(''2+2?'', \<lambda>m h. Raises ''connection refused''),
             (''2+2?'', \<lambda>m h. Next (Chunk (Some (Message (Some ''4'')))) (Raises ''reset''))]
     (OllamaChat_init ''llama3.1'' ''You are terse.'') \<and>
   history (run_requests
            [(''2+2?'', \<lambda>m h. Raises ''connection refused''),
             (''2+2?'', \<lambda>m h. Next (Chunk (Some (Message (Some ''4'')))) (Raises ''reset''))]
     (OllamaChat_init ''llama3.1'' ''You are terse.'')) =
     [\<lparr>role = ''system'', content = ''You are terse.''\<rparr>]"
proof -
  let ?s = "OllamaChat_init ''llama3.1'' ''You are terse.''"
  have r: "snd (snd (request (\<lambda>m h. Raises ''connection refused'') ''2+2?'' ?s)) = ?s"
    by (simp add: request_failure [of _ _ _ "''connection refused''"] answer_def)
  have h: "all_fail [(''2+2?'', \<lambda>m h. Raises ''connection refused''),
             (''2+2?'', \<lambda>m h. Next (Chunk (Some (Message (Some ''4'')))) (Raises ''reset''))] ?s"
    using r by (simp add: answer_def)
  show ?thesis
    using h rollback_twice [OF h] by (simp add: OllamaChat_init_def)
qed

subsection \<open>When the user turn is appended\<close>

text \<open>
  Claim C6, as stated: the call \<^verbatim>\<open>ask_stream(user_text)\<close> itself appends the user turn.
  It does not: \<^verbatim>\<open>ask_stream\<close> is a generator function, whose call only builds the
  generator object. Right after the call \<^verbatim>\<open>ask_stream("2+2?")\<close> on a session whose
  history is the system turn, the history is still the system turn alone.
\<close>

theorem ask_stream_call_counterexample:
  "history (snd (ask_stream ''2+2?'' (OllamaChat_init ''llama3.1'' ''You are terse.''))) \<noteq>
   history (OllamaChat_init ''llama3.1'' ''You are terse.'') @
     [\<lparr>role = ''user'', content = ''2+2?''\<rparr>]"
  by (simp add: ask_stream_def)

text \<open>
  Claim C6, amended: the call leaves the session unchanged; the user turn is appended
  when the sequence is first advanced, right behind the history of before the call, and
  the history is exactly the old history followed by the user turn at the moment the
  first chunk is yielded.
\<close>

theorem user_turn_on_first_advance:
  "snd (ask_stream user_text s) = s \<and>
   (\<exists>rest. history (snd (snd (gen_next D (fst (ask_stream user_text s)) s))) =
      history s @ [\<lparr>role = ''user'', content = user_text\<rparr>] @ rest) \<and>
   (gen_next D (fst (ask_stream user_text s)) s = (Yield c, g', s') \<longrightarrow>
      history s' = history s @ [\<lparr>role = ''user'', content = user_text\<rparr>])"
proof (intro conjI impI)
  show "snd (ask_stream user_text s) = s"
    by (simp add: ask_stream_def)
next
  let ?s1 = "s\<lparr>history := history s @ [\<lparr>role = ''user'', content = user_text\<rparr>]\<rparr>"
  from stream_loop_history_prefix [of "D (model ?s1) (history ?s1)" "[]" ?s1]
  show "\<exists>rest. history (snd (snd (gen_next D (fst (ask_stream user_text s)) s))) =
      history s @ [\<lparr>role = ''user'', content = user_text\<rparr>] @ rest"
    by (simp add: ask_stream_def Let_def)
next
  assume "gen_next D (fst (ask_stream user_text s)) s = (Yield c, g', s')"
  then have "s' = s\<lparr>history := history s @ [\<lparr>role = ''user'', content = user_text\<rparr>]\<rparr>"
    by (simp add: ask_stream_def Let_def stream_loop_yield_session)
  then show "history s' = history s @ [\<lparr>role = ''user'', content = user_text\<rparr>]"
    by simp
qed

theorem user_turn_on_first_advance_witness:
  "gen_next (\<lambda>m h. Next (Chunk (Some (Message (Some ''4'')))) StopIteration)
     (fst (ask_stream ''2+2?'' (OllamaChat_init ''llama3.1'' ''You are terse.'')))
     (OllamaChat_init ''llama3.1'' ''You are terse.'') =
     (Yield ''4'', Streaming StopIteration [''4''],
      \<lparr>model = ''llama3.1'',
       history = [\<lparr>role = ''system'', content = ''You are terse.''\<rparr>,
                  \<lparr>role = ''user'', content = ''2+2?''\<rparr>]\<rparr>) \<and>
   history \<lparr>model = ''llama3.1'',
       history = [\<lparr>role = ''system'', content = ''You are terse.''\<rparr>,
                  \<lparr>role = ''user'', content = ''2+2?''\<rparr>]\<rparr> =
     history (OllamaChat_init ''llama3.1'' ''You are terse.'') @
       [\<lparr>role = ''user'', content = ''2+2?''\<rparr>]"
proof -
  let ?D = "\<lambda>m h. Next (Chunk (Some (Message (Some ''4'')))) StopIteration"
  let ?s = "OllamaChat_init ''llama3.1'' ''You are terse.''"
  let ?s' = "\<lparr>model = ''llama3.1'',
       history = [\<lparr>role = ''system'', content = ''You are terse.''\<rparr>,
                  \<lparr>role = ''user'', content = ''2+2?''\<rparr>]\<rparr>"
  have h: "gen_next ?D (fst (ask_stream ''2+2?'' ?s)) ?s =
     (Yield ''4'', Streaming StopIteration [''4''], ?s')"
    by (simp add: ask_stream_def OllamaChat_init_def delta_of_def Let_def)
  show ?thesis
    using h user_turn_on_first_advance [of "''2+2?''" ?s ?D "''4''" "Streaming StopIteration [''4'']" ?s']
    by simp
qed

subsection \<open>The order of the interface updates\<close>

text \<open>
  Claim C7. For every request and every interleaving of the worker thread with the
  interface thread, the updates the interface thread has run, followed by those still
  pending, are always a beginning of the same list: first the assistant header, then one
  transcript append per chunk of the sequence, in the order the sequence produced them,
  and last the update that re-enables the input. The worker never ends by an exception;
  once it has made as many moves as there are chunks, plus two, it has returned, whether
  the daemon's stream ended normally or by an error, and then everything is scheduled:
  after as many turns of the event loop as there are pending callbacks, the interface
  thread has run exactly that list, in that order.
\<close>

theorem ui_updates_in_order:
  "(let c = run_schedule D sched (stream_response_start user_text s);
        updates = AppendAssistantHeader #
                  map AppendAssistantChunk (fst (request D user_text s)) @
                  [SetInputEnabled True];
        c' = run_schedule D (replicate (length (pending c)) UI) c
    in (\<exists>later. delivered c @ pending c @ later = updates) \<and>
       (\<forall>e. worker c \<noteq> Crashed e) \<and>
       (length (fst (request D user_text s)) + 2 \<le> length (filter (\<lambda>a. a = Worker) sched)
          \<longrightarrow> worker c = Returned) \<and>
       (worker c = Returned \<longrightarrow>
          delivered c @ pending c = updates \<and> delivered c' = updates \<and> pending c' = []))"
proof -
  let ?start = "stream_response_start user_text s"
  let ?c = "run_schedule D sched ?start"
  let ?updates = "scheduled D user_text s"
  have inv: "relay_inv D user_text s ?c"
    by (rule relay_inv_run [OF relay_inv_start])
  then obtain later where later: "to_come D user_text s ?c = Some later"
    "delivered ?c @ pending ?c @ later = ?updates"
    by (auto simp: relay_inv_def)
  have 1: "\<exists>later. delivered ?c @ pending ?c @ later = ?updates"
    using later by blast
  have 2: "\<forall>e. worker ?c \<noteq> Crashed e"
    using later(1) by (auto simp: to_come_def)
  have t0: "to_come D user_text s ?start = Some ?updates"
    by (simp add: to_come_def stream_response_start_def)
  from to_come_run [OF t0, of sched] later(1)
  have len: "length later = length ?updates - length (filter (\<lambda>a. a = Worker) sched)"
    by simp
  have 3: "worker ?c = Returned"
    if "length (fst (request D user_text s)) + 2 \<le> length (filter (\<lambda>a. a = Worker) sched)"
  proof -
    from that len have "later = []" by (simp add: scheduled_def)
    with later(1) show ?thesis by (simp only: to_come_Nil_Returned)
  qed
  have 4: "delivered ?c @ pending ?c = ?updates" if "worker ?c = Returned"
    using that later by (simp add: to_come_def)
  have 5: "delivered (run_schedule D (replicate (length (pending ?c)) UI) ?c) = ?updates \<and>
           pending (run_schedule D (replicate (length (pending ?c)) UI) ?c) = []"
    if "worker ?c = Returned"
    using run_ui_flush [of ?c "length (pending ?c)" D] 4 [OF that] by simp
  show ?thesis
    unfolding Let_def using 1 2 3 4 5 by (simp add: scheduled_def)
qed

theorem ui_updates_in_order_witness:
  "length (fst (request
      (\<lambda>m h. Next (Chunk (Some (Message (Some ''Hel''))))
               (Next (Chunk (Some (Message (Some ''lo'')))) StopIteration))
      ''hi'' (OllamaChat_init ''llama3.1'' []))) + 2
     \<le> length (filter (\<lambda>a. a = Worker) [Worker, UI, Worker, Worker, UI, Worker, UI]) \<and>
   worker (run_schedule
      (\<lambda>m h. Next (Chunk (Some (Message (Some ''Hel''))))
               (Next (Chunk (Some (Message (Some ''lo'')))) StopIteration))
      [Worker, UI, Worker, Worker, UI, Worker, UI]
      (stream_response_start ''hi'' (OllamaChat_init ''llama3.1'' []))) = Returned \<and>
   delivered (run_schedule
      (\<lambda>m h. Next (Chunk (Some (Message (Some ''Hel''))))
               (Next (Chunk (Some (Message (Some ''lo'')))) StopIteration))
      ([Worker, UI, Worker, Worker, UI, Worker, UI] @ [UI])
      (stream_response_start ''hi'' (OllamaChat_init ''llama3.1'' []))) =
     [AppendAssistantHeader, AppendAssistantChunk ''Hel'', AppendAssistantChunk ''lo'',
      SetInputEnabled True]"
proof -
  let ?D = "\<lambda>m h. Next (Chunk (Some (Message (Some ''Hel''))))
               (Next (Chunk (Some (Message (Some ''lo'')))) StopIteration)"
  let ?s = "OllamaChat_init ''llama3.1'' []"
  let ?sched = "[Worker, UI, Worker, Worker, UI, Worker, UI]"
  let ?c = "run_schedule ?D ?sched (stream_response_start ''hi'' ?s)"
  have ok: "stream_error (answer ?D ''hi'' ?s) = None"
    by (simp add: answer_def)
  have r: "fst (request ?D ''hi'' ?s) = [''Hel'', ''lo'']"
    using request_success [OF ok] by (simp add: answer_def delta_of_def)
  have h: "length (fst (request ?D ''hi'' ?s)) + 2 \<le> length (filter (\<lambda>a. a = Worker) ?sched)"
    using r by simp
  note inst = ui_updates_in_order [of ?D ?sched "''hi''" ?s, unfolded Let_def]
  from inst h have w: "worker ?c = Returned"
    by blast
  from inst w
  have f: "delivered (run_schedule ?D (replicate (length (pending ?c)) UI) ?c) =
      AppendAssistantHeader # map AppendAssistantChunk (fst (request ?D ''hi'' ?s)) @
      [SetInputEnabled True]"
    by blast
  have p: "pending ?c = [SetInputEnabled True]"
    by (simp add: stream_response_start_def worker_step_def ui_step_def after_def
        ask_stream_def OllamaChat_init_def delta_of_def Let_def)
  have "delivered (run_schedule ?D (?sched @ [UI]) (stream_response_start ''hi'' ?s)) =
      [AppendAssistantHeader, AppendAssistantChunk ''Hel'', AppendAssistantChunk ''lo'',
       SetInputEnabled True]"
    using f p r by (simp add: run_schedule_append)
  with h w show ?thesis by simp
qed

end
